theory Spec2Isabelle
  imports Main "HOL-Library.Sublist" "HOL-Library.Word"
begin

section \<open>create\_static.py: the chain string builder\<close>

text \<open>
  The script is straight-line code over four module-level constants. Python strings are
  modelled as \<open>string\<close> (all characters of the script are ASCII), Python's unbounded
  integers as \<open>int\<close>.
\<close>

definition NUM :: int where
  "NUM = 200"

definition SOURCE :: string where
  "SOURCE = ''ConstModule''"

definition SINK :: string where
  "SINK = ''SinkModule''"

definition MID :: string where
  "MID = ''AmplitudeScale''"

text \<open>
  Python's \<^verbatim>\<open>s * n\<close> on a string: \<open>n\<close> copies of \<open>s\<close>, and the empty string when
  \<open>n \<le> 0\<close> (\<open>nat\<close> sends the negative integers to \<open>0\<close>).
\<close>

definition str_mul :: "string \<Rightarrow> int \<Rightarrow> string" where
  "str_mul s n = concat (replicate (nat n) s)"

text \<open>
  The variable \<^verbatim>\<open>init\<close> after each of its four assignments, with the repetition count
  taken as a parameter, and the string handed to \<^verbatim>\<open>print\<close>.
\<close>

definition init_sink :: string where
  "init_sink = SINK @ ''<''"

definition init_mid :: "int \<Rightarrow> string" where
  "init_mid num = init_sink @ str_mul (MID @ ''<'') num"

definition init_source :: "int \<Rightarrow> string" where
  "init_source num = init_mid num @ SOURCE"

definition init_brackets :: "int \<Rightarrow> string" where
  "init_brackets num = init_source num @ str_mul ''>'' (num + 1)"

definition chain :: "int \<Rightarrow> string" where
  "chain num = init_brackets num @ ''sink;''"

text \<open>
  Standard output is the list of the lines written so far; \<^verbatim>\<open>print\<close> of a string
  without a line break adds one line. The script prints once, with the constant
  \<^verbatim>\<open>NUM\<close> as the count.
\<close>

definition print_line :: "string \<Rightarrow> string list \<Rightarrow> string list" where
  "print_line s out = out @ [s]"

definition create_static :: "string list" where
  "create_static = print_line (chain NUM) []"

subsection \<open>Notions used to state the properties\<close>

text \<open>
  The number of positions of \<open>s\<close> at which \<open>pat\<close> starts (overlapping occurrences
  would each count), and the least such position, as Python's \<^verbatim>\<open>str.find\<close> gives it.
\<close>

fun count_sub :: "string \<Rightarrow> string \<Rightarrow> nat" where
  "count_sub pat [] = (if pat = [] then 1 else 0)"
| "count_sub pat (c # cs) = (if prefix pat (c # cs) then 1 else 0) + count_sub pat cs"

fun find_sub :: "string \<Rightarrow> string \<Rightarrow> nat option" where
  "find_sub pat [] = (if pat = [] then Some 0 else None)"
| "find_sub pat (c # cs) =
     (if prefix pat (c # cs) then Some 0 else map_option Suc (find_sub pat cs))"

text \<open>The greatest position of \<open>s\<close> that holds the character \<open>c\<close> (Python's \<^verbatim>\<open>str.rfind\<close>).\<close>

fun last_index :: "char \<Rightarrow> string \<Rightarrow> nat option" where
  "last_index c [] = None"
| "last_index c (x # xs) =
     (case last_index c xs of
        Some k \<Rightarrow> Some (Suc k)
      | None \<Rightarrow> if x = c then Some 0 else None)"

section \<open>temp.py: the matrix multiply demo\<close>

text \<open>
  A two-dimensional array is the list of its rows. The entries of the two literal arrays
  are integers; none of the numbers that occur in their product exceeds 1500, so the fixed
  width of the array library's integer type plays no part (lemmas \<open>fixed_product_int64\<close>
  and \<open>fixed_product_int32\<close> below) and the entries are modelled as \<open>int\<close>.
\<close>

type_synonym 'a array2 = "'a list list"

datatype error = ValueError

definition nrows :: "'a array2 \<Rightarrow> nat" where
  "nrows X = length X"

definition ncols :: "'a array2 \<Rightarrow> nat" where
  "ncols X = (case X of [] \<Rightarrow> 0 | row # _ \<Rightarrow> length row)"

text \<open>
  Modelled from the spec: the operator \<^verbatim>\<open>@\<close> on two-dimensional arrays belongs to the
  numeric array library, which is not among the sources. The spec gives its meaning:
  cell \<open>(i, j)\<close> of the result is the sum over \<open>k\<close> of \<open>left(i, k) * right(k, j)\<close>. The
  library refuses operands whose inner dimensions differ.
\<close>

definition matmul :: "('a::semiring_0) array2 \<Rightarrow> 'a array2 \<Rightarrow> error + 'a array2" where
  "matmul X Y =
     (if ncols X \<noteq> nrows Y then Inl ValueError
      else Inr (map (\<lambda>i. map (\<lambda>j. \<Sum>k\<leftarrow>[0..<nrows Y]. X ! i ! k * Y ! k ! j)
                      [0..<ncols Y]) [0..<nrows X]))"

text \<open>
  The values the script prints: arrays of floating-point numbers, whose type \<open>'f\<close> is left
  open, and arrays of integers.
\<close>

datatype 'f printed = FloatArray "'f array2" | IntArray "int array2"

text \<open>
  The state of a run: the variables \<^verbatim>\<open>A\<close>, \<^verbatim>\<open>B\<close>, \<^verbatim>\<open>a\<close>, \<^verbatim>\<open>b\<close> and what has been
  written to standard output.
\<close>

record 'f temp_state =
  var_A :: "'f array2"
  var_B :: "'f array2"
  var_a :: "int array2"
  var_b :: "int array2"
  stdout :: "'f printed list"

definition a_literal :: "int array2" where
  "a_literal = [[1, 2, 3], [4, 5, 6], [7, 8, 9]]"

definition b_literal :: "int array2" where
  "b_literal = [[10, 20, 30], [40, 50, 60], [70, 80, 90]]"

definition print_array :: "'f printed \<Rightarrow> 'f temp_state \<Rightarrow> 'f temp_state" where
  "print_array v s = s\<lparr>stdout := stdout s @ [v]\<rparr>"

text \<open>
  One run of the script. The two results of \<^verbatim>\<open>np.random.rand(3, 3)\<close> are inputs of the
  run (\<open>drawA\<close>, \<open>drawB\<close>), and so is the library's product on floating-point arrays
  (\<open>fmatmul\<close>). An exception of the last product ends the run after three prints.
\<close>

definition temp_py ::
  "('f array2 \<Rightarrow> 'f array2 \<Rightarrow> 'f array2) \<Rightarrow> 'f array2 \<Rightarrow> 'f array2
     \<Rightarrow> (error \<times> 'f temp_state) + 'f temp_state" where
  "temp_py fmatmul drawA drawB =
     (let s0 = \<lparr>var_A = drawA, var_B = drawB, var_a = a_literal, var_b = b_literal,
                stdout = []\<rparr>;
          s1 = print_array (FloatArray (var_A s0)) s0;
          s2 = print_array (FloatArray (var_B s1)) s1;
          s3 = print_array (FloatArray (fmatmul (var_A s2) (var_B s2))) s2
      in case matmul (var_a s3) (var_b s3) of
           Inl e \<Rightarrow> Inl (e, s3)
         | Inr p \<Rightarrow> Inr (print_array (IntArray p) s3))"

text \<open>Multiplying every entry of an array by a scalar, as \<^verbatim>\<open>c * X\<close> does in the library.\<close>

definition scale :: "('a::semiring_0) \<Rightarrow> 'a array2 \<Rightarrow> 'a array2" where
  "scale c X = map (map ((*) c)) X"

section \<open>Properties of the chain string builder\<close>

subsection \<open>What the counting and searching functions compute\<close>

lemma count_sub_positions:
  "count_sub pat s = card {i. i \<le> length s \<and> prefix pat (drop i s)}"
proof (induction s)
  case Nil
  then show ?case by (auto simp: card_eq_0_iff)
next
  case (Cons c cs)
  let ?P = "\<lambda>t i. i \<le> length t \<and> prefix pat (drop i t)"
  have split: "{i. ?P (c # cs) i}
      = (if prefix pat (c # cs) then {0} else {}) \<union> Suc ` {i. ?P cs i}"
  proof (rule set_eqI)
    fix i
    show "i \<in> {i. ?P (c # cs) i}
      \<longleftrightarrow> i \<in> (if prefix pat (c # cs) then {0} else {}) \<union> Suc ` {i. ?P cs i}"
      by (cases i) auto
  qed
  have fin: "finite {i. ?P cs i}" by simp
  have "card {i. ?P (c # cs) i}
      = (if prefix pat (c # cs) then 1 else 0) + card (Suc ` {i. ?P cs i})"
    unfolding split using fin by (auto simp: card_insert_if)
  also have "card (Suc ` {i. ?P cs i}) = card {i. ?P cs i}"
    by (rule card_image) simp
  finally show ?case using Cons by simp
qed

lemma find_sub_least:
  "find_sub pat s = Some p \<Longrightarrow>
     p \<le> length s \<and> prefix pat (drop p s) \<and> (\<forall>q<p. \<not> prefix pat (drop q s))"
proof (induction s arbitrary: p)
  case Nil
  then show ?case by (simp split: if_splits)
next
  case (Cons c cs)
  show ?case
  proof (cases "prefix pat (c # cs)")
    case True
    with Cons.prems show ?thesis by simp
  next
    case False
    with Cons.prems obtain p' where p': "find_sub pat cs = Some p'" "p = Suc p'"
      by auto
    from Cons.IH [OF p'(1)] have ih: "p' \<le> length cs" "prefix pat (drop p' cs)"
      "\<forall>q<p'. \<not> prefix pat (drop q cs)" by simp_all
    have "\<not> prefix pat (drop q (c # cs))" if "q < p" for q
      using that False ih(3) p'(2) by (cases q) simp_all
    with ih p'(2) show ?thesis by simp
  qed
qed

lemma last_index_greatest:
  "last_index c s = Some k \<Longrightarrow>
     k < length s \<and> s ! k = c \<and> (\<forall>m. k < m \<and> m < length s \<longrightarrow> s ! m \<noteq> c)"
proof (induction s arbitrary: k)
  case Nil
  then show ?case by simp
next
  case (Cons x xs)
  show ?case
  proof (cases "last_index c xs")
    case None
    with Cons.prems have k: "k = 0" "x = c" by (simp_all split: if_splits)
    have "c \<notin> set xs"
    proof
      assume "c \<in> set xs"
      then have "last_index c xs \<noteq> None"
        by (induction xs) (auto split: option.splits)
      with None show False by simp
    qed
    then have "(x # xs) ! m \<noteq> c" if "0 < m" "m < length (x # xs)" for m
      using that by (cases m) auto
    with k show ?thesis by simp
  next
    case (Some k')
    with Cons.prems have k: "k = Suc k'" by simp
    from Cons.IH [OF Some] have ih: "k' < length xs" "xs ! k' = c"
      "\<forall>m. k' < m \<and> m < length xs \<longrightarrow> xs ! m \<noteq> c" by simp_all
    have "(x # xs) ! m \<noteq> c" if "k < m" "m < length (x # xs)" for m
      using that ih(3) k by (cases m) simp_all
    with ih k show ?thesis by simp
  qed
qed

lemma count_sub_absent: "c \<notin> set s \<Longrightarrow> count_sub (c # p) s = 0"
  by (induction s) auto

lemma count_sub_skip:
  "c \<notin> set xs \<Longrightarrow> count_sub (c # p) (xs @ ys) = count_sub (c # p) ys"
  by (induction xs) auto

lemma count_sub_hit:
  "c \<notin> set p \<Longrightarrow> count_sub (c # p) ((c # p) @ ys) = Suc (count_sub (c # p) ys)"
  using count_sub_skip [of c p p ys] by simp

lemma count_sub_blocks:
  "c \<notin> set (p @ q) \<Longrightarrow>
     count_sub (c # p) (concat (replicate k (c # p @ q)) @ ys) = k + count_sub (c # p) ys"
proof (induction k)
  case 0
  then show ?case by simp
next
  case (Suc k)
  have "count_sub (c # p) ((c # p @ q) @ concat (replicate k (c # p @ q)) @ ys)
      = Suc (count_sub (c # p) ((p @ q) @ concat (replicate k (c # p @ q)) @ ys))"
    by simp
  also have "\<dots> = Suc (count_sub (c # p) (concat (replicate k (c # p @ q)) @ ys))"
    by (simp only: count_sub_skip [OF Suc.prems])
  finally show ?case using Suc by simp
qed

lemma find_sub_skip:
  "c \<notin> set xs \<Longrightarrow> find_sub (c # p) (xs @ (c # p) @ ys) = Some (length xs)"
  by (induction xs) auto

lemma last_index_absent: "c \<notin> set s \<Longrightarrow> last_index c s = None"
  by (induction s) auto

lemma last_index_snoc: "c \<notin> set v \<Longrightarrow> last_index c (u @ c # v) = Some (length u)"
  by (induction u) (auto simp: last_index_absent)

lemma count_list_concat_replicate:
  "count_list (concat (replicate k s)) c = k * count_list s c"
  by (induction k) simp_all

lemma count_list_replicate_char:
  "count_list (replicate k c) d = (if c = d then k else 0)"
  by (induction k) auto

lemma length_concat_replicate: "length (concat (replicate k s)) = k * length s"
  by (induction k) simp_all

lemma concat_replicate_snoc:
  "concat (replicate (Suc k) (s @ t)) = (concat (replicate k (s @ t)) @ s) @ t"
  by (induction k) simp_all

text \<open>
  If \<open>d\<close> does not occur in \<open>u\<close> and \<open>c\<close> does not occur in \<open>v\<close>, every \<open>c\<close> of \<open>u @ v\<close>
  stands before every \<open>d\<close>.
\<close>

lemma before_after:
  assumes "d \<notin> set u" and "c \<notin> set v"
    and "i < length (u @ v)" and "j < length (u @ v)"
    and "(u @ v) ! i = c" and "(u @ v) ! j = d"
  shows "i < j"
proof -
  have "i < length u"
  proof (rule ccontr)
    assume "\<not> i < length u"
    with assms(3,5) have "v ! (i - length u) = c" and "i - length u < length v"
      by (auto simp: nth_append)
    with assms(2) show False by (metis nth_mem)
  qed
  moreover have "length u \<le> j"
  proof (rule ccontr)
    assume "\<not> length u \<le> j"
    with assms(6) have "u ! j = d" and "j < length u"
      by (auto simp: nth_append)
    with assms(1) show False by (metis nth_mem)
  qed
  ultimately show ?thesis by simp
qed

subsection \<open>The shape of the chain\<close>

lemma init_mid_unfold:
  "init_mid n = ''SinkModule<'' @ concat (replicate (nat n) ''AmplitudeScale<'')"
  by (simp add: init_mid_def init_sink_def str_mul_def SINK_def MID_def)

lemma chain_split:
  "chain n = init_mid n @ ''ConstModule'' @ replicate (nat (n + 1)) CHR ''>'' @ ''sink;''"
proof -
  have "concat (replicate k ''>'') = replicate k CHR ''>''" for k :: nat
    by (induction k) simp_all
  then show ?thesis
    by (simp add: chain_def init_brackets_def init_source_def str_mul_def SOURCE_def)
qed

lemma chain_unfold:
  "chain n = ''SinkModule<'' @ concat (replicate (nat n) ''AmplitudeScale<'')
     @ ''ConstModule'' @ replicate (nat (n + 1)) CHR ''>'' @ ''sink;''"
  by (simp add: chain_split init_mid_unfold)

lemma length_init_mid: "length (init_mid n) = 11 + 15 * nat n"
  by (simp add: init_mid_unfold length_concat_replicate)

lemma init_mid_chars: "set (init_mid n) \<subseteq> set ''SinkModule<AmplitudeScale''"
  by (auto simp: init_mid_unfold)

lemma init_mid_last: "\<exists>w. init_mid n = w @ ''<'' \<and> length w = 10 + 15 * nat n"
proof (cases "nat n")
  case 0
  then have "init_mid n = ''SinkModule'' @ ''<''"
    by (simp add: init_mid_unfold)
  moreover have "length ''SinkModule'' = 10 + 15 * (0::nat)" by simp
  ultimately show ?thesis using 0 by metis
next
  case (Suc m)
  then have "init_mid n
      = (''SinkModule<'' @ concat (replicate m ''AmplitudeScale<'') @ ''AmplitudeScale'') @ ''<''"
    unfolding init_mid_unfold
    using concat_replicate_snoc [of m "''AmplitudeScale''" "''<''"] by simp
  moreover have "length (''SinkModule<'' @ concat (replicate m ''AmplitudeScale<'')
      @ ''AmplitudeScale'') = 10 + 15 * Suc m"
    by (simp add: length_concat_replicate)
  ultimately show ?thesis using Suc by metis
qed

lemma count_lt_init_mid: "count_list (init_mid n) CHR ''<'' = Suc (nat n)"
  by (simp add: init_mid_unfold count_list_concat_replicate)

lemma take_init_mid: "take (11 + 15 * nat n) (chain n) = init_mid n"
  using length_init_mid [of n] by (simp add: chain_split)

lemma before_source: "chain n ! (10 + 15 * nat n) = CHR ''<''"
proof -
  obtain w where w: "init_mid n = w @ ''<''" "length w = 10 + 15 * nat n"
    using init_mid_last by blast
  then show ?thesis by (simp add: chain_split nth_append)
qed

lemma source_count: "count_sub SOURCE (chain n) = 1"
proof -
  let ?post = "replicate (nat (n + 1)) CHR ''>'' @ ''sink;''"
  have "CHR ''C'' \<notin> set (init_mid n)"
    using init_mid_chars [of n] by auto
  then have "count_sub (CHR ''C'' # ''onstModule'')
        (init_mid n @ (CHR ''C'' # ''onstModule'') @ ?post)
     = count_sub (CHR ''C'' # ''onstModule'') ((CHR ''C'' # ''onstModule'') @ ?post)"
    by (rule count_sub_skip)
  also have "\<dots> = Suc (count_sub (CHR ''C'' # ''onstModule'') ?post)"
    by (rule count_sub_hit) simp
  also have "count_sub (CHR ''C'' # ''onstModule'') ?post = 0"
    by (rule count_sub_absent) simp
  finally show ?thesis by (simp add: chain_split SOURCE_def)
qed

lemma source_find: "find_sub SOURCE (chain n) = Some (11 + 15 * nat n)"
proof -
  let ?post = "replicate (nat (n + 1)) CHR ''>'' @ ''sink;''"
  have "CHR ''C'' \<notin> set (init_mid n)"
    using init_mid_chars [of n] by auto
  then have "find_sub (CHR ''C'' # ''onstModule'')
        (init_mid n @ (CHR ''C'' # ''onstModule'') @ ?post) = Some (length (init_mid n))"
    by (rule find_sub_skip)
  then show ?thesis by (simp add: chain_split SOURCE_def length_init_mid)
qed

lemma mid_count: "count_sub MID (chain n) = nat n"
proof -
  let ?rest = "''ConstModule'' @ replicate (nat (n + 1)) CHR ''>'' @ ''sink;''"
  have "count_sub (CHR ''A'' # ''mplitudeScale'')
          (''SinkModule<'' @ concat (replicate (nat n) (CHR ''A'' # ''mplitudeScale'' @ ''<''))
             @ ?rest)
        = nat n + count_sub (CHR ''A'' # ''mplitudeScale'') ?rest"
    by (subst count_sub_skip, simp) (rule count_sub_blocks, simp)
  also have "count_sub (CHR ''A'' # ''mplitudeScale'') ?rest = 0"
    by (rule count_sub_absent) simp
  finally show ?thesis by (simp add: chain_unfold MID_def)
qed

lemma last_lt: "last_index CHR ''<'' (chain n) = Some (10 + 15 * nat n)"
proof -
  obtain w where w: "init_mid n = w @ ''<''" "length w = 10 + 15 * nat n"
    using init_mid_last by blast
  have "last_index CHR ''<''
      (w @ CHR ''<'' # (''ConstModule'' @ replicate (nat (n + 1)) CHR ''>'' @ ''sink;''))
    = Some (length w)"
    by (rule last_index_snoc) simp
  with w show ?thesis by (simp add: chain_split)
qed

lemma first_gt:
  assumes "0 \<le> n"
  shows "find_sub ''>'' (chain n) = Some (22 + 15 * nat n)"
proof -
  from assms have "nat (n + 1) = Suc (nat n)" by simp
  then have split: "chain n
      = (init_mid n @ ''ConstModule'') @ ''>'' @ (replicate (nat n) CHR ''>'' @ ''sink;'')"
    by (simp add: chain_split)
  have "CHR ''>'' \<notin> set (init_mid n @ ''ConstModule'')"
    using init_mid_chars [of n] by auto
  then have "find_sub ''>''
      ((init_mid n @ ''ConstModule'') @ ''>'' @ (replicate (nat n) CHR ''>'' @ ''sink;''))
    = Some (length (init_mid n @ ''ConstModule''))"
    by (rule find_sub_skip)
  then show ?thesis unfolding split by (simp add: length_init_mid)
qed

lemma lt_before_gt:
  assumes "i < length (chain n)" and "j < length (chain n)"
    and "chain n ! i = CHR ''<''" and "chain n ! j = CHR ''>''"
  shows "i < j"
proof -
  have split: "chain n
      = (init_mid n @ ''ConstModule'') @ (replicate (nat (n + 1)) CHR ''>'' @ ''sink;'')"
    by (simp add: chain_split)
  have 1: "CHR ''>'' \<notin> set (init_mid n @ ''ConstModule'')"
    using init_mid_chars [of n] by auto
  have 2: "CHR ''<'' \<notin> set (replicate (nat (n + 1)) CHR ''>'' @ ''sink;'')"
    by auto
  show ?thesis
    using before_after [OF 1 2] assms unfolding split by blast
qed

subsection \<open>The printed string\<close>

text \<open>
  C4: with a repetition count of 0 the printed string is exactly
  \<open>SinkModule<ConstModule>sink;\<close>.
\<close>

theorem chain_zero: "chain 0 = ''SinkModule<ConstModule>sink;''"
  by (simp add: chain_unfold)

text \<open>
  C1: for every non-negative count \<open>n\<close> the printed string has exactly \<open>n + 1\<close>
  characters \<open><\<close>, exactly \<open>n + 1\<close> characters \<open>>\<close>, and ends with \<open>sink;\<close>.
\<close>

theorem chain_brackets_balanced:
  assumes "0 \<le> n"
  shows "int (count_list (chain n) CHR ''<'') = n + 1
    \<and> int (count_list (chain n) CHR ''>'') = n + 1
    \<and> suffix ''sink;'' (chain n)"
proof -
  have lt: "count_list (chain n) CHR ''<'' = nat n + 1"
    by (simp add: chain_unfold count_list_concat_replicate count_list_replicate_char)
  have gt: "count_list (chain n) CHR ''>'' = nat (n + 1)"
    by (simp add: chain_unfold count_list_concat_replicate count_list_replicate_char)
  have "chain n = (''SinkModule<'' @ concat (replicate (nat n) ''AmplitudeScale<'')
     @ ''ConstModule'' @ replicate (nat (n + 1)) CHR ''>'') @ ''sink;''"
    by (simp add: chain_unfold)
  then have "suffix ''sink;'' (chain n)"
    unfolding suffix_def by blast
  with lt gt assms show ?thesis by simp
qed

theorem chain_brackets_balanced_witness:
  "(0::int) \<le> 3 \<and> count_list (chain 3) CHR ''<'' = 4 \<and> count_list (chain 3) CHR ''>'' = 4
    \<and> suffix ''sink;'' (chain 3)"
  using chain_brackets_balanced [of 3] by simp

text \<open>
  C2: the script prints one line, the chain for \<open>NUM = 200\<close>. It has exactly 201
  characters \<open><\<close> and exactly 201 characters \<open>>\<close>; \<open>ConstModule\<close> starts at exactly one
  position \<open>p\<close> of it; the character just before \<open>p\<close> is a \<open><\<close>, and it is the 201st
  one, since 201 of them stand among the first \<open>p\<close> characters.
\<close>

theorem chain_default:
  "create_static = [chain NUM]
     \<and> count_list (chain NUM) CHR ''<'' = 201
     \<and> count_list (chain NUM) CHR ''>'' = 201
     \<and> count_sub SOURCE (chain NUM) = 1
     \<and> (\<exists>p. find_sub SOURCE (chain NUM) = Some p \<and> 0 < p
            \<and> chain NUM ! (p - 1) = CHR ''<''
            \<and> count_list (take p (chain NUM)) CHR ''<'' = 201)"
proof -
  have n: "nat NUM = 200" "nat (NUM + 1) = 201"
    by (simp_all add: NUM_def)
  have out: "create_static = [chain NUM]"
    by (simp add: create_static_def print_line_def)
  have lt: "count_list (chain NUM) CHR ''<'' = 201"
    by (simp add: chain_unfold count_list_concat_replicate count_list_replicate_char n)
  have gt: "count_list (chain NUM) CHR ''>'' = 201"
    by (simp add: chain_unfold count_list_concat_replicate count_list_replicate_char n)
  have pos: "find_sub SOURCE (chain NUM) = Some 3011"
    by (simp add: source_find n)
  have prev: "chain NUM ! (3011 - 1) = CHR ''<''"
    using before_source [of NUM] by (simp add: n)
  have "take 3011 (chain NUM) = init_mid NUM"
    using take_init_mid [of NUM] by (simp add: n)
  then have nth: "count_list (take 3011 (chain NUM)) CHR ''<'' = 201"
    by (simp add: count_lt_init_mid n)
  have "\<exists>p. find_sub SOURCE (chain NUM) = Some p \<and> 0 < p
            \<and> chain NUM ! (p - 1) = CHR ''<''
            \<and> count_list (take p (chain NUM)) CHR ''<'' = 201"
    using pos prev nth by (intro exI [of _ 3011]) simp
  with out lt gt source_count [of NUM] show ?thesis by simp
qed

text \<open>
  C8: for every non-negative count \<open>n\<close>, \<open>AmplitudeScale\<close> occurs exactly \<open>n\<close> times in
  the printed string (200 times for the script's own count).
\<close>

theorem mid_occurrences:
  assumes "0 \<le> n"
  shows "int (count_sub MID (chain n)) = n"
  using assms by (simp add: mid_count)

theorem mid_occurrences_witness:
  "0 \<le> NUM \<and> count_sub MID (chain NUM) = 200"
  using mid_occurrences [of NUM] by (simp add: NUM_def)

text \<open>
  C10: for every non-negative count, every \<open><\<close> of the printed string stands before
  every \<open>>\<close>: the last \<open><\<close> is at a smaller position than the first \<open>>\<close>.
\<close>

theorem brackets_ordered:
  assumes "0 \<le> n"
  shows "(\<forall>i j. i < length (chain n) \<and> j < length (chain n)
            \<and> chain n ! i = CHR ''<'' \<and> chain n ! j = CHR ''>'' \<longrightarrow> i < j)
     \<and> (\<exists>p q. last_index CHR ''<'' (chain n) = Some p
            \<and> find_sub ''>'' (chain n) = Some q \<and> p < q)"
proof -
  have "\<forall>i j. i < length (chain n) \<and> j < length (chain n)
            \<and> chain n ! i = CHR ''<'' \<and> chain n ! j = CHR ''>'' \<longrightarrow> i < j"
    using lt_before_gt by blast
  moreover have "\<exists>p q. last_index CHR ''<'' (chain n) = Some p
            \<and> find_sub ''>'' (chain n) = Some q \<and> p < q"
    using last_lt [of n] first_gt [OF assms] by simp
  ultimately show ?thesis by blast
qed

theorem brackets_ordered_witness:
  "(0::int) \<le> 1 \<and> 25 < length (chain 1) \<and> 37 < length (chain 1)
     \<and> chain 1 ! 25 = CHR ''<'' \<and> chain 1 ! 37 = CHR ''>'' \<and> (25::nat) < 37
     \<and> last_index CHR ''<'' (chain 1) = Some 25 \<and> find_sub ''>'' (chain 1) = Some 37"
proof -
  have c: "chain 1 = ''SinkModule<AmplitudeScale<ConstModule>>sink;''"
    by (simp add: chain_unfold numeral_2_eq_2)
  have h: "(0::int) \<le> 1" by simp
  show ?thesis
    using brackets_ordered [OF h] unfolding c by simp
qed

section \<open>Properties of the matrix multiply demo\<close>

text \<open>
  With the entries read as signed 64-bit or 32-bit machine integers, whose arithmetic wraps
  around, the product of the literal matrices is the same.
\<close>

lemma fixed_product_int64:
  "\<exists>P. matmul (map (map of_int) a_literal) (map (map of_int) b_literal)
        = Inr (P :: 64 word array2)
     \<and> map (map sint) P = [[300, 360, 420], [660, 810, 960], [1020, 1260, 1500]]"
  by (simp add: matmul_def a_literal_def b_literal_def nrows_def ncols_def upt_rec)

lemma fixed_product_int32:
  "\<exists>P. matmul (map (map of_int) a_literal) (map (map of_int) b_literal)
        = Inr (P :: 32 word array2)
     \<and> map (map sint) P = [[300, 360, 420], [660, 810, 960], [1020, 1260, 1500]]"
  by (simp add: matmul_def a_literal_def b_literal_def nrows_def ncols_def upt_rec)

text \<open>
  A scalar factor of the right operand can be moved out of the product, for arrays whose
  rows all have the same length.
\<close>

lemma matmul_scale_right:
  fixes X Y :: "('a::comm_semiring_0) array2"
  assumes "\<forall>row \<in> set Y. length row = ncols Y"
  shows "matmul X (scale c Y) = map_sum id (scale c) (matmul X Y)"
proof -
  have nr: "nrows (scale c Y) = nrows Y"
    by (simp add: nrows_def scale_def)
  have nc: "ncols (scale c Y) = ncols Y"
    by (cases Y) (simp_all add: ncols_def scale_def)
  have cell: "scale c Y ! k ! j = c * Y ! k ! j" if "k < nrows Y" "j < ncols Y" for k j
    using that assms by (simp add: scale_def nrows_def)
  have "(\<Sum>k\<leftarrow>[0..<nrows Y]. X ! i ! k * scale c Y ! k ! j)
      = c * (\<Sum>k\<leftarrow>[0..<nrows Y]. X ! i ! k * Y ! k ! j)" if "j < ncols Y" for i j
  proof -
    have "(\<Sum>k\<leftarrow>[0..<nrows Y]. X ! i ! k * scale c Y ! k ! j)
      = (\<Sum>k\<leftarrow>[0..<nrows Y]. c * (X ! i ! k * Y ! k ! j))"
      by (rule arg_cong [where f = sum_list], rule map_cong)
        (simp_all add: cell that mult.left_commute)
    then show ?thesis by (simp add: sum_list_const_mult)
  qed
  then have rows:
    "map (\<lambda>j. \<Sum>k\<leftarrow>[0..<nrows Y]. X ! i ! k * scale c Y ! k ! j) [0..<ncols Y]
      = map ((*) c) (map (\<lambda>j. \<Sum>k\<leftarrow>[0..<nrows Y]. X ! i ! k * Y ! k ! j) [0..<ncols Y])"
    for i
    by simp
  show ?thesis
    unfolding matmul_def nr nc rows by (simp add: scale_def)
qed

text \<open>
  C3: the product of the two literal matrices is
  \<open>[[300,360,420],[660,810,960],[1020,1260,1500]]\<close>, in exact integer arithmetic.
\<close>

theorem fixed_product:
  "matmul a_literal b_literal
     = Inr [[300, 360, 420], [660, 810, 960], [1020, 1260, 1500]]"
  by (simp add: matmul_def a_literal_def b_literal_def nrows_def ncols_def upt_rec)

lemma temp_py_run:
  "temp_py fmatmul drawA drawB =
     Inr \<lparr>var_A = drawA, var_B = drawB, var_a = a_literal, var_b = b_literal,
          stdout = [FloatArray drawA, FloatArray drawB, FloatArray (fmatmul drawA drawB),
                    IntArray [[300, 360, 420], [660, 810, 960], [1020, 1260, 1500]]]\<rparr>"
proof -
  have "matmul a_literal b_literal
      = Inr [[300, 360, 420], [660, 810, 960], [1020, 1260, 1500]]"
    by (simp add: matmul_def a_literal_def b_literal_def nrows_def ncols_def upt_rec)
  then show ?thesis
    by (simp add: temp_py_def print_array_def)
qed

text \<open>
  C6: every run ends normally and has written exactly four arrays, in this order: the
  random matrix \<open>A\<close>, the random matrix \<open>B\<close>, their product, and the product of the two
  literal matrices.
\<close>

theorem temp_output_order:
  "\<exists>s P. temp_py fmatmul drawA drawB = Inr s
     \<and> matmul a_literal b_literal = Inr P
     \<and> stdout s = [FloatArray drawA, FloatArray drawB, FloatArray (fmatmul drawA drawB),
                   IntArray P]"
  by (simp add: temp_py_run)
    (simp add: matmul_def a_literal_def b_literal_def nrows_def ncols_def upt_rec)

text \<open>
  C7: take two runs, with any random draws (and any behaviour of the floating-point
  product). Both end normally, the variables \<open>a\<close> and \<open>b\<close> hold the same arrays in both,
  and the fourth array printed, the product of the literal matrices, is the same in both.
\<close>

theorem temp_fixed_across_runs:
  "\<exists>s s'. temp_py fmatmul drawA drawB = Inr s \<and> temp_py fmatmul' drawA' drawB' = Inr s'
     \<and> var_a s = var_a s' \<and> var_b s = var_b s'
     \<and> length (stdout s) = 4 \<and> length (stdout s') = 4
     \<and> stdout s ! 3 = stdout s' ! 3"
  by (simp add: temp_py_run)

text \<open>
  C9: the second literal matrix is the first with every entry multiplied by 10, and the
  printed product \<open>a @ b\<close> is 10 times the product \<open>a @ a\<close>.
\<close>

theorem fixed_b_scaled:
  "b_literal = scale 10 a_literal
     \<and> (\<exists>P Q. matmul a_literal b_literal = Inr P \<and> matmul a_literal a_literal = Inr Q
            \<and> P = scale 10 Q)"
  by (simp add: scale_def matmul_def a_literal_def b_literal_def nrows_def ncols_def upt_rec)

end
